theory Spec2Isabelle
  imports Complex_Main
begin

section \<open>Python values\<close>

text \<open>
  A Python \<open>str\<close> is a sequence of Unicode code points; \<open>len\<close> and slicing count code
  points, so a string is a list of code points here (HOL's \<open>char\<close> is a byte).
\<close>

type_synonym pystr = "nat list"

definition ascii :: "string \<Rightarrow> pystr" where
  "ascii s = map of_char s"

text \<open>
  \<open>str.strip()\<close> without argument removes the characters for which \<open>str.isspace\<close>
  holds from both ends. These are the code points CPython treats as whitespace.
\<close>

definition isspace :: "nat \<Rightarrow> bool" where
  "isspace c \<longleftrightarrow>
     (9 \<le> c \<and> c \<le> 13) \<or> (28 \<le> c \<and> c \<le> 32) \<or> c = 133 \<or> c = 160 \<or> c = 5760 \<or>
     (8192 \<le> c \<and> c \<le> 8202) \<or> c = 8232 \<or> c = 8233 \<or> c = 8239 \<or> c = 8287 \<or> c = 12288"

definition strip :: "pystr \<Rightarrow> pystr" where
  "strip s = rev (dropWhile isspace (rev (dropWhile isspace s)))"

text \<open>
  The values of a decoded API object, as far as truthiness of a \<open>Dict\<close> needs them:
  an empty dict is false, any other dict is true.
\<close>

datatype json =
    JNull
  | JBool bool
  | JNum int
  | JStr pystr
  | JList "json list"
  | JDict "(pystr \<times> json) list"

type_synonym pydict = "(pystr \<times> json) list"

definition truthy_dict :: "pydict option \<Rightarrow> bool" where
  "truthy_dict d = (case d of None \<Rightarrow> False | Some kvs \<Rightarrow> kvs \<noteq> [])"

definition truthy_str :: "pystr option \<Rightarrow> bool" where
  "truthy_str d = (case d of None \<Rightarrow> False | Some s \<Rightarrow> s \<noteq> [])"

text \<open>
  An exception of class \<open>Exception\<close>, with its message. Every handler of the bot is
  \<open>except Exception\<close>. Interrupts of the runtime that derive from \<open>BaseException\<close>
  only (keyboard interrupt, interpreter exit, task cancellation) are asynchronous
  signals rather than results of a call; they are not part of this model.
\<close>

datatype exn = Exception pystr

type_synonym 'a outcome = "exn + 'a"

section \<open>The outside world\<close>

datatype image = Image nat

record media =
  url :: pystr
  description :: "pystr option"

record post =
  post_id :: nat
  content :: pystr

record generation_config =
  temperature :: real
  top_p :: real
  top_k :: int

datatype part = Text_part pystr | Image_part image

datatype request =
    Text_only pystr
  | Multimodal "part list" generation_config

text \<open>
  What the bot does to the outside, in the order it does it: sleeps, console output,
  and calls of collaborators (the generative model, the social network client).
\<close>

datatype event =
    Sleep real
  | Print_starting
  | Print_rate_limit real
  | Print_retry int int int
  | Print_generate_error exn
  | Print_auto_post int int
  | Print_replied pystr
  | Print_hashtag_error pystr exn
  | Print_main_loop_error exn
  | Call_download_image pystr
  | Call_generate_content request
  | Call_create_scheduled_post
  | Call_search_hashtag pystr int
  | Call_reply_to_post nat "pystr option"
  | Call_handle_direct_messages
  | Call_auto_like_trending_posts

text \<open>
  The environment fixes how the outside answers. Every interaction with the outside
  has its own index (the \<open>ticks\<close> counter of the world), so successive calls of one
  collaborator may answer differently: an environment is an arbitrary sequence of
  outcomes.

  \<^item> \<open>elapse\<close>: the time that passed, beyond the bot's own sleeps, when the wall clock
    is read;
  \<^item> \<open>local_now\<close>: hour and minute of \<open>datetime.now()\<close>;
  \<^item> \<open>generate_content\<close>: the text of the model's response, or the exception raised by
    the call or by reading \<open>response.text\<close>;
  \<^item> \<open>rand\<close>: the value of \<open>random.random()\<close>.
\<close>

text \<open>
  Modelled from the spec: the methods \<open>_clean_html\<close>, \<open>_get_media_attachments\<close>,
  \<open>_download_image\<close>, \<open>create_scheduled_post\<close>, \<open>search_hashtag\<close>,
  \<open>reply_to_post\<close> and \<open>handle_direct_messages\<close> are called by the source and defined
  nowhere in it. They are parameters here. Following the spec, markup stripping and
  attachment listing are functions of their argument, an image fetch returns an image
  or none, and the actions on the social network return or raise and leave the
  counters of the bot alone.
\<close>

record env =
  elapse :: "nat \<Rightarrow> real"
  local_now :: "nat \<Rightarrow> int \<times> int"
  rand :: "nat \<Rightarrow> real"
  clean_html :: "pystr \<Rightarrow> pystr"
  get_media_attachments :: "pydict \<Rightarrow> media list"
  download_image :: "nat \<Rightarrow> pystr \<Rightarrow> image option"
  generate_content :: "nat \<Rightarrow> request \<Rightarrow> pystr outcome"
  create_scheduled_post :: "nat \<Rightarrow> unit outcome"
  search_hashtag :: "nat \<Rightarrow> pystr \<Rightarrow> int \<Rightarrow> post list outcome"
  reply_to_post :: "nat \<Rightarrow> nat \<Rightarrow> pystr option \<Rightarrow> unit outcome"
  handle_direct_messages :: "nat \<Rightarrow> unit outcome"

record world =
  clock :: real
  ticks :: nat
  trace :: "event list"

definition emit :: "event \<Rightarrow> world \<Rightarrow> world" where
  "emit e w = w\<lparr>trace := trace w @ [e]\<rparr>"

definition tick :: "world \<Rightarrow> world" where
  "tick w = w\<lparr>ticks := Suc (ticks w)\<rparr>"

text \<open>\<open>asyncio.sleep(d)\<close>: the clock moves on by \<open>d\<close>; a delay that is not positive does not wait.\<close>

definition sleep :: "real \<Rightarrow> world \<Rightarrow> world" where
  "sleep d w = emit (Sleep d) (w\<lparr>clock := clock w + max d 0\<rparr>)"

text \<open>\<open>time.time()\<close>: the clock, after whatever time the environment let pass.\<close>

definition time_time :: "env \<Rightarrow> world \<Rightarrow> real \<times> world" where
  "time_time env w =
     (let c = clock w + elapse env (ticks w)
      in (c, tick (w\<lparr>clock := c\<rparr>)))"

section \<open>The response generator\<close>

definition fallback_text :: pystr where
  "fallback_text = [10024] @ ascii '' Interesting perspective! Thanks for sharing! '' @ [127775]"

fun download_images :: "env \<Rightarrow> media list \<Rightarrow> world \<Rightarrow> (image \<times> pystr option) list \<times> world" where
  "download_images env [] w = ([], w)"
| "download_images env (m # ms) w =
     (let w1 = emit (Call_download_image (url m)) w;
          got = download_image env (ticks w1) (url m);
          (rest, w2) = download_images env ms (tick w1)
      in (case got of
            Some img \<Rightarrow> ((img, description m) # rest, w2)
          | None \<Rightarrow> (rest, w2)))"

definition rules_text :: pystr where
  "rules_text = ascii (''\<newline>        Rules:'' @
     ''\<newline>        - Maximum 2 sentences'' @
     ''\<newline>        - Include 1-2 emojis'' @
     ''\<newline>        - Be witty and friendly'' @
     ''\<newline>        - Match the post'' @ [CHR 0x27] @ ''s tone'' @
     ''\<newline>        - Add a relevant pop culture reference if it fits naturally'' @
     ''\<newline>        - Reference image content naturally (if images present)'' @
     ''\<newline>        '' @
     ''\<newline>        Format: Just the response text with emojis.'' @
     ''\<newline>        '')"

definition build_prompt :: "pystr \<Rightarrow> bool \<Rightarrow> pystr" where
  "build_prompt clean_text has_images =
     (let base_prompt = ascii ''Create a fun, short response to this post: '' @ [34] @
                        clean_text @ [34, 32];
          base_prompt = (if has_images
             then base_prompt @
                  ascii (''\<newline>The post includes images which I'' @ [CHR 0x27] @
                         ''ll analyze for context.'') @
                  ascii ''\<newline>Incorporate relevant details from the images in the response.''
             else base_prompt)
      in base_prompt @ rules_text)"

fun content_parts :: "(image \<times> pystr option) list \<Rightarrow> part list" where
  "content_parts [] = []"
| "content_parts ((img, d) # rest) =
     Image_part img #
     (if truthy_str d then [Text_part (ascii ''Image description: '' @ the d)] else []) @
     content_parts rest"

definition make_request :: "(image \<times> pystr option) list \<Rightarrow> pystr \<Rightarrow> request" where
  "make_request images prompt =
     (if images \<noteq> []
      then Multimodal (Text_part prompt # content_parts images)
             \<lparr>temperature = 7 / 10, top_p = 8 / 10, top_k = 40\<rparr>
      else Text_only prompt)"

text \<open>
  The body of the \<open>try\<close> of one attempt: the 5 second sleep, the call, and the
  \<open>return\<close> of the truncated and stripped text. \<open>Inl\<close> is the exception that reaches
  the handler.
\<close>

definition try_attempt ::
  "env \<Rightarrow> (image \<times> pystr option) list \<Rightarrow> pystr \<Rightarrow> world \<Rightarrow> pystr outcome \<times> world" where
  "try_attempt env images prompt w =
     (let w1 = sleep 5 w;
          req = make_request images prompt;
          w2 = emit (Call_generate_content req) w1;
          response = generate_content env (ticks w2) req;
          w3 = tick w2
      in (case response of
            Inl e \<Rightarrow> (Inl e, w3)
          | Inr text \<Rightarrow> (Inr (strip (take 240 text)), w3)))"

text \<open>
  \<open>for attempt in range(max_retries)\<close>, from \<open>attempt\<close> on. The result is what the
  function returns: \<open>Inr None\<close> is Python's \<open>None\<close> of a function that falls off its
  end, \<open>Inl\<close> would be an exception that leaves the function.
\<close>

function attempt_loop ::
  "env \<Rightarrow> (image \<times> pystr option) list \<Rightarrow> pystr \<Rightarrow> int \<Rightarrow> int \<Rightarrow> world
     \<Rightarrow> pystr option outcome \<times> world" where
  "attempt_loop env images prompt max_retries attempt w =
     (if attempt < max_retries then
        (case try_attempt env images prompt w of
           (Inr text, w1) \<Rightarrow> (Inr (Some text), w1)
         | (Inl e, w1) \<Rightarrow>
             if attempt < max_retries - 1 then
               (let wait_time = 10 * (attempt + 1);
                    w2 = emit (Print_retry (attempt + 1) max_retries wait_time) w1;
                    w3 = sleep (of_int wait_time) w2
                in attempt_loop env images prompt max_retries (attempt + 1) w3)
             else (Inr (Some fallback_text), emit (Print_generate_error e) w1))
      else (Inr None, w))"
  by pat_completeness auto
termination
  by (relation "measure (\<lambda>(env, images, prompt, max_retries, attempt, w). nat (max_retries - attempt))")
     auto

text \<open>The statements before the attempt loop: the images that could be fetched and the prompt.\<close>

definition prepare ::
  "env \<Rightarrow> pystr \<Rightarrow> pydict option \<Rightarrow> world \<Rightarrow> ((image \<times> pystr option) list \<times> pystr) \<times> world" where
  "prepare env post_text status w =
     (let clean_text = clean_html env post_text;
          (images, w1) =
             (if truthy_dict status
              then download_images env (get_media_attachments env (the status)) w
              else ([], w));
          prompt = build_prompt clean_text (images \<noteq> [])
      in ((images, prompt), w1))"

definition generate_entertainment_response ::
  "env \<Rightarrow> pystr \<Rightarrow> pydict option \<Rightarrow> int \<Rightarrow> world \<Rightarrow> pystr option outcome \<times> world" where
  "generate_entertainment_response env post_text status max_retries w =
     (let ((images, prompt), w1) = prepare env post_text status w
      in attempt_loop env images prompt max_retries 0 w1)"

text \<open>
  The answer of the generative model to the \<open>k\<close>-th call (from 0) that one run of
  \<open>generate_entertainment_response\<close> makes.
\<close>

definition answer :: "env \<Rightarrow> pystr \<Rightarrow> pydict option \<Rightarrow> world \<Rightarrow> nat \<Rightarrow> pystr outcome" where
  "answer env post_text status w k =
     (let ((images, prompt), w1) = prepare env post_text status w
      in generate_content env (ticks w1 + k) (make_request images prompt))"

section \<open>The bot\<close>

datatype post_style = MEME | ENTERTAINER | INFORMATIVE | STORYTELLER | ANALYST

record post_config =
  use_hashtags :: bool
  max_length :: int
  blacklisted_words :: "pystr list"

text \<open>
  The fields of \<open>MastodonBot\<close> that the methods below read or write. The credentials and
  the two client objects belong to the outside world. Times are the readings of the wall
  clock, taken as exact real numbers of seconds.
\<close>

record bot =
  last_request_time :: real
  request_count :: int
  max_requests_per_minute :: int
  retry_delay :: int
  auto_post_interval :: real
  last_post_time :: real
  post_count :: int
  max_daily_posts :: int
  current_style :: post_style
  replied_dms :: "nat list"
  dm_context_file :: pystr
  config :: post_config
  hashtags_to_monitor :: "pystr list"
  is_running :: bool

subsection \<open>The store of answered direct messages\<close>

text \<open>
  Modelled from the spec: \<open>_load_dm_context\<close> and the body of
  \<open>handle_direct_messages\<close> are not in the source, which only creates the empty set
  \<open>replied_dms\<close>, names the file and calls the loader. The store is modelled from the
  contract of the spec: \<open>load\<close> (a missing file gives the empty set), \<open>has\<close>, and
  \<open>record\<close> (adds and persists). A set is a list without repetition; the file holds
  the list of identifiers, or is missing.
\<close>

type_synonym dm_file = "nat list option"

definition load_dm_context :: "dm_file \<Rightarrow> nat list" where
  "load_dm_context file = (case file of None \<Rightarrow> [] | Some ids \<Rightarrow> remdups ids)"

definition has_replied :: "nat \<Rightarrow> nat list \<Rightarrow> bool" where
  "has_replied i replied \<longleftrightarrow> i \<in> set replied"

definition record_reply :: "nat \<Rightarrow> nat list \<times> dm_file \<Rightarrow> nat list \<times> dm_file" where
  "record_reply i st =
     (let replied = List.insert i (fst st)
      in (replied, Some replied))"

text \<open>
  Modelled from the spec: the direct-message step scans the incoming messages and, for
  each one not in the set, sends a reply and records it. The result lists the messages
  that were replied to, in order.
\<close>

fun reply_to_new :: "nat list \<Rightarrow> nat list \<times> dm_file \<Rightarrow> nat list \<times> (nat list \<times> dm_file)" where
  "reply_to_new [] st = ([], st)"
| "reply_to_new (m # ms) st =
     (if has_replied m (fst st) then reply_to_new ms st
      else (let (sent, st') = reply_to_new ms (record_reply m st)
            in (m # sent, st')))"

text \<open>
  Modelled from the spec: a process start loads the set from the file and leaves the
  file as it is.
\<close>

definition restart :: "dm_file \<Rightarrow> nat list \<times> dm_file" where
  "restart file = (load_dm_context file, file)"

subsection \<open>Construction\<close>

definition init :: "env \<Rightarrow> dm_file \<Rightarrow> world \<Rightarrow> bot \<times> world" where
  "init env file w =
     (let (now, w1) = time_time env w
      in (\<lparr>last_request_time = 0,
           request_count = 0,
           max_requests_per_minute = 30,
           retry_delay = 5,
           auto_post_interval = 1800,
           last_post_time = now,
           post_count = 0,
           max_daily_posts = 48,
           current_style = ENTERTAINER,
           replied_dms = load_dm_context file,
           dm_context_file = ascii ''dm_context.json'',
           config = \<lparr>use_hashtags = True, max_length = 240, blacklisted_words = []\<rparr>,
           hashtags_to_monitor = [ascii ''tech'', ascii ''AI'', ascii ''programming''],
           is_running = False\<rparr>, w1))"

subsection \<open>The rate limiter\<close>

definition handle_rate_limit :: "env \<Rightarrow> bot \<times> world \<Rightarrow> bot \<times> world" where
  "handle_rate_limit env sw =
     (let (s, w) = sw;
          (current_time, w) = time_time env w;
          time_diff = current_time - last_request_time s;
          s = (if time_diff \<ge> 60
               then s\<lparr>request_count := 0, last_request_time := current_time\<rparr>
               else s);
          (s, w) =
            (if request_count s \<ge> max_requests_per_minute s then
               (let wait_time = 60 - time_diff
                in if wait_time > 0 then
                     (let w = emit (Print_rate_limit wait_time) w;
                          w = sleep wait_time w;
                          s = s\<lparr>request_count := 0\<rparr>;
                          (now, w) = time_time env w
                      in (s\<lparr>last_request_time := now\<rparr>, w))
                   else (s, w))
             else (s, w));
          w = sleep 2 w
      in (s\<lparr>request_count := request_count s + 1\<rparr>, w))"

text \<open>
  The wall-clock times at which \<open>n\<close> successive calls of the rate limiter return, that
  is, at which the requests they guard proceed. Whatever happens between two calls takes
  the time the environment says at the next reading of the clock.
\<close>

fun proceed_times :: "env \<Rightarrow> nat \<Rightarrow> bot \<times> world \<Rightarrow> real list" where
  "proceed_times env 0 sw = []"
| "proceed_times env (Suc n) sw =
     (let sw' = handle_rate_limit env sw
      in clock (snd sw') # proceed_times env n sw')"

subsection \<open>Exceptions\<close>

text \<open>
  A statement leaves a result and a state. \<open>bind\<close> is sequencing: an exception skips
  what follows. \<open>try_except\<close> is \<open>try: ... except Exception as e: ...\<close>.
\<close>

definition bind :: "'a outcome \<times> 's \<Rightarrow> ('a \<Rightarrow> 's \<Rightarrow> 'b outcome \<times> 's) \<Rightarrow> 'b outcome \<times> 's" where
  "bind r f = (case r of (Inl e, s) \<Rightarrow> (Inl e, s) | (Inr v, s) \<Rightarrow> f v s)"

definition try_except :: "'a outcome \<times> 's \<Rightarrow> (exn \<Rightarrow> 's \<Rightarrow> 'a outcome \<times> 's) \<Rightarrow> 'a outcome \<times> 's" where
  "try_except r h = (case r of (Inl e, s) \<Rightarrow> h e s | (Inr v, s) \<Rightarrow> (Inr v, s))"

subsection \<open>Hashtag monitoring\<close>

text \<open>\<open>for post in posts\<close> of \<open>monitor_hashtag\<close>.\<close>

fun reply_loop :: "env \<Rightarrow> pystr \<Rightarrow> post list \<Rightarrow> world \<Rightarrow> unit outcome \<times> world" where
  "reply_loop env hashtag [] w = (Inr (), w)"
| "reply_loop env hashtag (p # ps) w =
     (let r = rand env (ticks w);
          w1 = tick w
      in if r < 3 / 10 then
           bind (generate_entertainment_response env (content p) None 3 w1) (\<lambda>response w2.
             (let w3 = emit (Call_reply_to_post (post_id p) response) w2;
                  replied = reply_to_post env (ticks w3) (post_id p) response;
                  w4 = tick w3
              in bind (replied, w4) (\<lambda>_ w4.
                   (let w5 = emit (Print_replied hashtag) w4;
                        w6 = sleep 30 w5
                    in reply_loop env hashtag ps w6))))
         else reply_loop env hashtag ps w1)"

definition monitor_hashtag_body :: "env \<Rightarrow> pystr \<Rightarrow> bot \<times> world \<Rightarrow> unit outcome \<times> bot \<times> world" where
  "monitor_hashtag_body env hashtag sw =
     (let (s, w) = handle_rate_limit env sw;
          w1 = emit (Call_search_hashtag hashtag 5) w;
          found = search_hashtag env (ticks w1) hashtag 5;
          w2 = tick w1
      in (case found of
            Inl e \<Rightarrow> (Inl e, s, w2)
          | Inr posts \<Rightarrow>
              (let (r, w3) = reply_loop env hashtag posts w2
               in (r, s, w3))))"

definition monitor_hashtag :: "env \<Rightarrow> pystr \<Rightarrow> bot \<times> world \<Rightarrow> unit outcome \<times> bot \<times> world" where
  "monitor_hashtag env hashtag sw =
     try_except (monitor_hashtag_body env hashtag sw)
       (\<lambda>e (s, w). (Inr (), s, emit (Print_hashtag_error hashtag e) w))"

subsection \<open>The scheduler loop\<close>

definition post_step :: "env \<Rightarrow> real \<Rightarrow> bot \<times> world \<Rightarrow> unit outcome \<times> bot \<times> world" where
  "post_step env current_time sw =
     (let (s, w) = sw
      in if current_time - last_post_time s \<ge> auto_post_interval s then
           if post_count s < max_daily_posts s then
             (let w1 = emit Call_create_scheduled_post w;
                  created = create_scheduled_post env (ticks w1);
                  w2 = tick w1
              in bind (created, s, w2) (\<lambda>_ (s, w).
                   (let s = s\<lparr>last_post_time := current_time\<rparr>;
                        s = s\<lparr>post_count := post_count s + 1\<rparr>;
                        w = emit (Print_auto_post (post_count s) (max_daily_posts s)) w
                    in (Inr (), s, w))))
           else (Inr (), s, w)
         else (Inr (), s, w))"

text \<open>\<open>for hashtag in self.hashtags_to_monitor\<close>.\<close>

fun monitor_all :: "env \<Rightarrow> pystr list \<Rightarrow> bot \<times> world \<Rightarrow> unit outcome \<times> bot \<times> world" where
  "monitor_all env [] sw = (Inr (), sw)"
| "monitor_all env (h # hs) sw =
     bind (monitor_hashtag env h sw) (\<lambda>_ sw'. monitor_all env hs sw')"

definition direct_messages_step :: "env \<Rightarrow> bot \<times> world \<Rightarrow> unit outcome \<times> bot \<times> world" where
  "direct_messages_step env sw =
     (let (s, w) = sw;
          w1 = emit Call_handle_direct_messages w;
          handled = handle_direct_messages env (ticks w1)
      in (handled, s, tick w1))"

text \<open>
  \<open>datetime.now().hour == 0 and datetime.now().minute == 0\<close>: two readings of the local
  time, the second only when the first shows hour 0.
\<close>

definition midnight_step :: "env \<Rightarrow> bot \<times> world \<Rightarrow> bot \<times> world" where
  "midnight_step env sw =
     (let (s, w) = sw;
          hour = fst (local_now env (ticks w));
          w1 = tick w
      in if hour = 0 then
           (let minute = snd (local_now env (ticks w1));
                w2 = tick w1
            in if minute = 0 then (s\<lparr>post_count := 0\<rparr>, w2) else (s, w2))
         else (s, w1))"

text \<open>The body of the \<open>try\<close> of one iteration of \<open>run_forever\<close>.\<close>

definition iteration_body :: "env \<Rightarrow> bot \<times> world \<Rightarrow> unit outcome \<times> bot \<times> world" where
  "iteration_body env sw =
     (let (s, w) = sw;
          (current_time, w) = time_time env w
      in bind (post_step env current_time (s, w)) (\<lambda>_ sw.
         bind (monitor_all env (hashtags_to_monitor (fst sw)) sw) (\<lambda>_ sw.
         bind (direct_messages_step env sw) (\<lambda>_ sw.
           (let (s, w) = midnight_step env sw
            in (Inr (), s, sleep 60 w))))))"

definition iteration :: "env \<Rightarrow> bot \<times> world \<Rightarrow> unit outcome \<times> bot \<times> world" where
  "iteration env sw =
     try_except (iteration_body env sw)
       (\<lambda>e (s, w). (Inr (), s, sleep 300 (emit (Print_main_loop_error e) w)))"

text \<open>
  \<open>while self.is_running\<close>, observed for \<open>n\<close> iterations. The result is \<open>None\<close> while
  the loop is still running after them, \<open>Some (Inr ())\<close> when the loop has ended because
  \<open>is_running\<close> was false, and \<open>Some (Inl e)\<close> when an exception has ended it.
\<close>

fun run_forever_loop :: "env \<Rightarrow> nat \<Rightarrow> bot \<times> world \<Rightarrow> unit outcome option \<times> bot \<times> world" where
  "run_forever_loop env 0 sw = (if is_running (fst sw) then None else Some (Inr ()), sw)"
| "run_forever_loop env (Suc n) sw =
     (if is_running (fst sw) then
        (case iteration env sw of
           (Inl e, sw') \<Rightarrow> (Some (Inl e), sw')
         | (Inr _, sw') \<Rightarrow> run_forever_loop env n sw')
      else (Some (Inr ()), sw))"

definition run_forever :: "env \<Rightarrow> nat \<Rightarrow> bot \<times> world \<Rightarrow> unit outcome option \<times> bot \<times> world" where
  "run_forever env n sw =
     (let (s, w) = sw;
          s = s\<lparr>is_running := True\<rparr>;
          w = emit Print_starting w
      in run_forever_loop env n (s, w))"

section \<open>Observations and concrete inputs\<close>

text \<open>The world after the sleep and the call of one attempt.\<close>

definition after_call :: "(image \<times> pystr option) list \<Rightarrow> pystr \<Rightarrow> world \<Rightarrow> world" where
  "after_call images prompt w =
     tick (emit (Call_generate_content (make_request images prompt)) (sleep 5 w))"

text \<open>The durations of the sleeps of a trace, in order.\<close>

definition sleeps :: "event list \<Rightarrow> real list" where
  "sleeps tr = concat (map (\<lambda>e. case e of Sleep d \<Rightarrow> [d] | _ \<Rightarrow> []) tr)"

text \<open>
  The sleeps and the generation calls of a trace, in order: what separates one call of
  the generative model from the next.
\<close>

datatype moment = Wait real | Attempt request

definition timeline :: "event list \<Rightarrow> moment list" where
  "timeline tr =
     concat (map (\<lambda>e. case e of Sleep d \<Rightarrow> [Wait d] | Call_generate_content r \<Rightarrow> [Attempt r] | _ \<Rightarrow> []) tr)"

text \<open>
  The periodic actions of the scheduler, each seen in the trace by the call that starts
  it. \<open>auto_like_trending_posts\<close> is called by \<open>schedule_auto_posts\<close> only, a second
  loop of the source that nothing calls.
\<close>

datatype action = Auto_post | Hashtag_monitor pystr | Direct_messages | Auto_like

definition action_of :: "event \<Rightarrow> action list" where
  "action_of e =
     (case e of
        Call_create_scheduled_post \<Rightarrow> [Auto_post]
      | Call_search_hashtag h n \<Rightarrow> [Hashtag_monitor h]
      | Call_handle_direct_messages \<Rightarrow> [Direct_messages]
      | Call_auto_like_trending_posts \<Rightarrow> [Auto_like]
      | _ \<Rightarrow> [])"

definition actions :: "event list \<Rightarrow> action list" where
  "actions tr = concat (map action_of tr)"

text \<open>The number of calls of \<open>create_scheduled_post\<close> in a trace.\<close>

definition posts :: "event list \<Rightarrow> nat" where
  "posts tr = count_list (actions tr) Auto_post"

text \<open>Between two worlds no action started and the clock did not go back.\<close>

definition quiet :: "world \<Rightarrow> world \<Rightarrow> bool" where
  "quiet w w' \<longleftrightarrow> actions (trace w') = actions (trace w) \<and> clock w \<le> clock w'"

text \<open>The fields of the bot that no method of the source assigns after construction
  (\<open>is_running\<close> is set once, before the loop).\<close>

definition settings :: "bot \<Rightarrow> real \<times> int \<times> pystr list \<times> bool" where
  "settings s = (auto_post_interval s, max_daily_posts s, hashtags_to_monitor s, is_running s)"

text \<open>
  Assumptions on the environment: the wall clock never runs backwards (\<open>steady\<close>), and
  the local time is never read as 00:00 by the midnight test (\<open>no_midnight\<close>: no reading
  of hour 0 is followed by a reading of minute 0).
\<close>

definition steady :: "env \<Rightarrow> bool" where
  "steady env \<longleftrightarrow> (\<forall>k. 0 \<le> elapse env k)"

definition no_midnight :: "env \<Rightarrow> bool" where
  "no_midnight env \<longleftrightarrow> (\<forall>k. \<not> (fst (local_now env k) = 0 \<and> snd (local_now env (Suc k)) = 0))"

text \<open>
  The two nested tests of the posting step, on the clock reading that the iteration
  starting in this state takes.
\<close>

definition due :: "env \<Rightarrow> bot \<times> world \<Rightarrow> bool" where
  "due env sw \<longleftrightarrow>
     clock (snd sw) + elapse env (ticks (snd sw)) - last_post_time (fst sw) \<ge> auto_post_interval (fst sw) \<and>
     post_count (fst sw) < max_daily_posts (fst sw)"

text \<open>The statements of the body of an iteration that follow the posting step.\<close>

definition after_post_step :: "env \<Rightarrow> bot \<times> world \<Rightarrow> unit outcome \<times> bot \<times> world" where
  "after_post_step env sw =
     bind (monitor_all env (hashtags_to_monitor (fst sw)) sw) (\<lambda>_ sw.
     bind (direct_messages_step env sw) (\<lambda>_ sw.
       (let (s, w) = midnight_step env sw
        in (Inr (), s, sleep 60 w))))"



text \<open>The state after \<open>n\<close> successive iterations.\<close>

fun iterations :: "env \<Rightarrow> nat \<Rightarrow> bot \<times> world \<Rightarrow> bot \<times> world" where
  "iterations env 0 sw = sw"
| "iterations env (Suc n) sw = iterations env n (snd (iteration env sw))"

text \<open>
  An environment in which nothing fails: no time passes beyond the sleeps, it is half
  past twelve, no post is picked for a reply, and every call returns.
\<close>

definition calm_env :: env where
  "calm_env =
     \<lparr>elapse = (\<lambda>k. 0), local_now = (\<lambda>k. (12, 30)), rand = (\<lambda>k. 1 / 2),
      clean_html = (\<lambda>s. s), get_media_attachments = (\<lambda>d. []),
      download_image = (\<lambda>k u. None),
      generate_content = (\<lambda>k r. Inr (ascii ''  ok '')),
      create_scheduled_post = (\<lambda>k. Inr ()),
      search_hashtag = (\<lambda>k h n. Inr []),
      reply_to_post = (\<lambda>k i r. Inr ()),
      handle_direct_messages = (\<lambda>k. Inr ())\<rparr>"

text \<open>The generative model fails at every call, or at the first call only.\<close>

definition failing_env :: env where
  "failing_env = calm_env\<lparr>generate_content := (\<lambda>k r. Inl (Exception (ascii ''quota'')))\<rparr>"

definition flaky_env :: env where
  "flaky_env = calm_env\<lparr>generate_content :=
      (\<lambda>k r. if k = 0 then Inl (Exception (ascii ''quota'')) else Inr (ascii ''  ok ''))\<rparr>"

text \<open>Half an hour passes between the construction of the bot and its first iteration.\<close>

definition due_env :: env where
  "due_env = calm_env\<lparr>elapse := (\<lambda>k. if k = 1 then 1800 else 0)\<rparr>"





text \<open>
  The bot is constructed half an hour before midnight. The midnight test of its first
  iteration (reading 10) sees 23:59, say at 23:59:58; the test of the second iteration
  comes 66 seconds later, after the 60 second sleep and the three 2 second sleeps of the
  rate limiter, and sees 00:01.
\<close>

definition night_env :: env where
  "night_env = due_env\<lparr>local_now := (\<lambda>k. if k < 11 then (23, 59) else (0, 1))\<rparr>"

definition world0 :: world where
  "world0 = \<lparr>clock = 0, ticks = 0, trace = []\<rparr>"

text \<open>
  The bot as constructed without a store file; as \<open>run_forever\<close> has it when it enters
  the loop; and with the daily cap and the interval of the scenario of two posts.
\<close>

definition fresh :: "env \<Rightarrow> bot \<times> world" where
  "fresh env = init env None world0"

definition started :: "env \<Rightarrow> bot \<times> world" where
  "started env = (let (s, w) = fresh env in (s\<lparr>is_running := True\<rparr>, emit Print_starting w))"


section \<open>Properties of the response generator\<close>

declare attempt_loop.simps [simp del]

lemma length_strip: "length (strip s) \<le> length s"
  unfolding strip_def
  by (metis length_dropWhile_le length_rev le_trans)

lemma length_strip_take: "length (strip (take 240 text)) \<le> 240"
  using length_strip [of "take 240 text"] by simp

lemma length_fallback: "length fallback_text = 48"
  by (simp add: fallback_text_def ascii_def)

lemma ticks_emit [simp]: "ticks (emit e w) = ticks w"
  by (simp add: emit_def)
lemma ticks_sleep [simp]: "ticks (sleep d w) = ticks w"
  by (simp add: sleep_def)
lemma ticks_tick [simp]: "ticks (tick w) = Suc (ticks w)"
  by (simp add: tick_def)

lemma ticks_after_call [simp]: "ticks (after_call i p w) = Suc (ticks w)"
  by (simp add: after_call_def)

lemma try_attempt_eq:
  "try_attempt env i p w =
     (case generate_content env (ticks w) (make_request i p) of
        Inl e \<Rightarrow> (Inl e, after_call i p w)
      | Inr text \<Rightarrow> (Inr (strip (take 240 text)), after_call i p w))"
  by (simp add: try_attempt_def after_call_def Let_def split: sum.splits)

lemma attempt_loop_done:
  "\<not> attempt < max_retries \<Longrightarrow> attempt_loop env i p max_retries attempt w = (Inr None, w)"
  by (simp add: attempt_loop.simps)

lemma attempt_loop_success:
  "attempt < max_retries \<Longrightarrow> generate_content env (ticks w) (make_request i p) = Inr text \<Longrightarrow>
   attempt_loop env i p max_retries attempt w = (Inr (Some (strip (take 240 text))), after_call i p w)"
  by (simp add: attempt_loop.simps try_attempt_eq)

lemma attempt_loop_retry:
  "attempt < max_retries - 1 \<Longrightarrow> generate_content env (ticks w) (make_request i p) = Inl e \<Longrightarrow>
   attempt_loop env i p max_retries attempt w =
   attempt_loop env i p max_retries (attempt + 1)
     (sleep (of_int (10 * (attempt + 1)))
        (emit (Print_retry (attempt + 1) max_retries (10 * (attempt + 1))) (after_call i p w)))"
  by (subst attempt_loop.simps) (simp add: try_attempt_eq Let_def)

lemma attempt_loop_exhausted:
  "attempt = max_retries - 1 \<Longrightarrow> generate_content env (ticks w) (make_request i p) = Inl e \<Longrightarrow>
   attempt_loop env i p max_retries attempt w =
   (Inr (Some fallback_text), emit (Print_generate_error e) (after_call i p w))"
  by (subst attempt_loop.simps) (simp add: try_attempt_eq Let_def)

lemma trace_emit [simp]: "trace (emit e w) = trace w @ [e]"
  by (simp add: emit_def)
lemma trace_sleep [simp]: "trace (sleep d w) = trace w @ [Sleep d]"
  by (simp add: sleep_def emit_def)
lemma trace_tick [simp]: "trace (tick w) = trace w"
  by (simp add: tick_def)
lemma trace_after_call [simp]:
  "trace (after_call i p w) = trace w @ [Sleep 5, Call_generate_content (make_request i p)]"
  by (simp add: after_call_def)

lemma sleeps_append [simp]: "sleeps (xs @ ys) = sleeps xs @ sleeps ys"
  by (simp add: sleeps_def)
lemma sleeps_Nil [simp]: "sleeps [] = []"
  by (simp add: sleeps_def)
lemma sleeps_Cons [simp]: "sleeps (e # es) = (case e of Sleep d \<Rightarrow> [d] | _ \<Rightarrow> []) @ sleeps es"
  by (simp add: sleeps_def)

lemma attempt_loop_some:
  "attempt < max_retries \<Longrightarrow>
   \<exists>s. fst (attempt_loop env i p max_retries attempt w) = Inr (Some s) \<and> length s \<le> 240"
proof (induction env i p max_retries attempt w rule: attempt_loop.induct)
  case (1 env i p max_retries attempt w)
  show ?case
  proof (cases "generate_content env (ticks w) (make_request i p)")
    case (Inr tx)
    then show ?thesis
      using attempt_loop_success [OF "1.prems", of env w i p tx] length_strip_take [of tx]
      by simp
  next
    case (Inl e)
    show ?thesis
    proof (cases "attempt < max_retries - 1")
      case True
      have ta: "(Inl e, after_call i p w) = try_attempt env i p w"
        by (simp add: try_attempt_eq Inl)
      from "1.IH" [OF "1.prems" ta refl True refl refl refl] True
      show ?thesis
        using attempt_loop_retry [OF True Inl] by simp
    next
      case False
      with "1.prems" have "attempt = max_retries - 1" by simp
      from attempt_loop_exhausted [OF this Inl] length_fallback show ?thesis by simp
    qed
  qed
qed

lemma timeline_append [simp]: "timeline (xs @ ys) = timeline xs @ timeline ys"
  by (simp add: timeline_def)
lemma timeline_Nil [simp]: "timeline [] = []"
  by (simp add: timeline_def)
lemma timeline_Cons [simp]:
  "timeline (e # es) =
     (case e of Sleep d \<Rightarrow> [Wait d] | Call_generate_content r \<Rightarrow> [Attempt r] | _ \<Rightarrow> []) @ timeline es"
  by (simp add: timeline_def)

lemma timeline_download_images:
  "download_images env ms w = (r, w') \<Longrightarrow> timeline (trace w') = timeline (trace w)"
proof (induction ms arbitrary: w r w')
  case Nil
  then show ?case by simp
next
  case (Cons m ms)
  obtain r1 w1 where d: "download_images env ms (tick (emit (Call_download_image (url m)) w)) = (r1, w1)"
    by (metis surj_pair)
  from Cons.IH [OF d] have "timeline (trace w1) = timeline (trace w)" by simp
  moreover from Cons.prems d have "w' = w1"
    by (auto simp: Let_def split: option.splits)
  ultimately show ?case by simp
qed

lemma timeline_prepare:
  "timeline (trace (snd (prepare env post_text status w))) = timeline (trace w)"
  by (auto simp: prepare_def Let_def split: prod.splits dest: timeline_download_images)

lemma attempt_loop_timeline:
  "attempt + int m < max_retries \<Longrightarrow>
   \<forall>k<m. isl (generate_content env (ticks w + k) (make_request i p)) \<Longrightarrow>
   \<not> isl (generate_content env (ticks w + m) (make_request i p)) \<or> attempt + int m = max_retries - 1 \<Longrightarrow>
   timeline (trace (snd (attempt_loop env i p max_retries attempt w))) =
   timeline (trace w) @
   concat (map (\<lambda>k. [Wait 5, Attempt (make_request i p), Wait (10 * (of_int attempt + real k + 1))]) [0..<m]) @
   [Wait 5, Attempt (make_request i p)]"
proof (induction m arbitrary: attempt w)
  case 0
  show ?case
  proof (cases "generate_content env (ticks w) (make_request i p)")
    case (Inr tx)
    with 0 attempt_loop_success [of attempt max_retries env w i p tx] show ?thesis by simp
  next
    case (Inl e)
    with 0 have "attempt = max_retries - 1" by simp
    from attempt_loop_exhausted [OF this Inl] show ?thesis by simp
  qed
next
  case (Suc m)
  from Suc.prems(2) obtain e where e: "generate_content env (ticks w) (make_request i p) = Inl e"
    by (cases "generate_content env (ticks w) (make_request i p)") force+
  let ?w = "sleep (of_int (10 * (attempt + 1)))
        (emit (Print_retry (attempt + 1) max_retries (10 * (attempt + 1))) (after_call i p w))"
  from Suc.prems(1) have lt: "attempt < max_retries - 1" by simp
  have step: "attempt_loop env i p max_retries attempt w =
              attempt_loop env i p max_retries (attempt + 1) ?w"
    by (rule attempt_loop_retry [OF lt e])
  have tk: "ticks ?w = Suc (ticks w)" by simp
  have a: "(attempt + 1) + int m < max_retries" using Suc.prems(1) by simp
  have b: "\<forall>k<m. isl (generate_content env (ticks ?w + k) (make_request i p))"
    using Suc.prems(2) by (auto simp: tk)
  have c: "\<not> isl (generate_content env (ticks ?w + m) (make_request i p)) \<or>
           (attempt + 1) + int m = max_retries - 1"
    using Suc.prems(3) by (simp add: tk)
  have sh: "map (\<lambda>k. [Wait 5, Attempt (make_request i p), Wait (10 * (of_int attempt + real k + 1))]) [0..<Suc m] =
            [Wait 5, Attempt (make_request i p), Wait (10 * (of_int attempt + 1))] #
            map (\<lambda>k. [Wait 5, Attempt (make_request i p), Wait (10 * (of_int (attempt + 1) + real k + 1))]) [0..<m]"
    by (simp add: upt_conv_Cons map_Suc_upt [symmetric] del: upt_Suc)
  show ?case
    unfolding step Suc.IH [OF a b c] sh
    by simp
qed

lemma attempt_loop_three:
  "\<exists>s. fst (attempt_loop env i p 3 0 w) = Inr (Some s) \<and> length s \<le> 240 \<and>
     ((\<forall>k<3. isl (generate_content env (ticks w + k) (make_request i p))) \<longrightarrow> s = fallback_text) \<and>
     (\<forall>j<3. \<forall>text. (\<forall>k<j. isl (generate_content env (ticks w + k) (make_request i p))) \<and>
         generate_content env (ticks w + j) (make_request i p) = Inr text \<longrightarrow>
         s = strip (take 240 text))"
proof (cases "generate_content env (ticks w) (make_request i p)")
  case (Inr t0)
  then show ?thesis
    using attempt_loop_success [of 0 3 env w i p t0] length_strip_take [of t0]
    by (auto simp: less_Suc_eq numeral_3_eq_3)
next
  case a0: (Inl e0)
  let ?w1 = "sleep (of_int (10 * (0 + 1)))
        (emit (Print_retry (0 + 1) 3 (10 * (0 + 1))) (after_call i p w))"
  have s0: "attempt_loop env i p 3 0 w = attempt_loop env i p 3 1 ?w1"
    using attempt_loop_retry [of 0 3 env w i p e0] a0 by simp
  have t1: "ticks ?w1 = ticks w + 1" by simp
  show ?thesis
  proof (cases "generate_content env (ticks w + 1) (make_request i p)")
    case (Inr t1')
    then show ?thesis
      using attempt_loop_success [of 1 3 env ?w1 i p t1'] length_strip_take [of t1'] a0 s0 t1
      by (auto simp: less_Suc_eq numeral_3_eq_3)
  next
    case a1: (Inl e1)
    let ?w2 = "sleep (of_int (10 * (1 + 1)))
        (emit (Print_retry (1 + 1) 3 (10 * (1 + 1))) (after_call i p ?w1))"
    have s1: "attempt_loop env i p 3 1 ?w1 = attempt_loop env i p 3 2 ?w2"
      using attempt_loop_retry [of 1 3 env ?w1 i p e1] a1 t1 by simp
    have t2: "ticks ?w2 = ticks w + 2" by simp
    show ?thesis
    proof (cases "generate_content env (ticks w + 2) (make_request i p)")
      case (Inr t2')
      then show ?thesis
        using attempt_loop_success [of 2 3 env ?w2 i p t2'] length_strip_take [of t2'] a0 a1 s0 s1 t2
        by (auto simp: less_Suc_eq numeral_3_eq_3 numeral_2_eq_2)
    next
      case a2: (Inl e2)
      then show ?thesis
        using attempt_loop_exhausted [of 2 3 env ?w2 i p e2] a0 a1 s0 s1 t2 length_fallback
        by (auto simp: less_Suc_eq numeral_3_eq_3 numeral_2_eq_2)
    qed
  qed
qed

lemma answer_failing: "answer failing_env [] None world0 k = Inl (Exception (ascii ''quota''))"
  by (simp add: answer_def prepare_def failing_env_def calm_env_def truthy_dict_def)

lemma answer_flaky:
  "answer flaky_env [] None world0 k =
     (if k = 0 then Inl (Exception (ascii ''quota'')) else Inr (ascii ''  ok ''))"
  by (simp add: answer_def prepare_def flaky_env_def calm_env_def truthy_dict_def world0_def)

lemma strip_ok: "strip (take 240 (ascii ''  ok '')) = [111, 107]"
  by (simp add: strip_def ascii_def isspace_def)

text \<open>
  C1: with the default of three attempts, for every post text, every optional source
  post and every sequence of outcomes of the generation calls,
  \<open>generate_entertainment_response\<close> returns a string of at most 240 code points and
  lets no exception through. When all three calls raise, the string is the fixed
  fallback. When a call returns after only failed ones, the string is the text of that
  response, cut to 240 code points and then stripped of surrounding whitespace.
\<close>

theorem generate_entertainment_response_returns:
  "\<exists>s. fst (generate_entertainment_response env post_text status 3 w) = Inr (Some s) \<and>
       length s \<le> 240 \<and>
       ((\<forall>k<3. isl (answer env post_text status w k)) \<longrightarrow> s = fallback_text) \<and>
       (\<forall>j<3. \<forall>text. (\<forall>k<j. isl (answer env post_text status w k)) \<and>
           answer env post_text status w j = Inr text \<longrightarrow> s = strip (take 240 text))"
proof -
  obtain i p w1 where pr: "prepare env post_text status w = ((i, p), w1)"
    by (metis surj_pair)
  show ?thesis
    using attempt_loop_three [of env i p w1]
    by (simp add: generate_entertainment_response_def answer_def pr)
qed

theorem generate_entertainment_response_returns_witness:
  "fst (generate_entertainment_response failing_env [] None 3 world0) = Inr (Some fallback_text) \<and>
   fst (generate_entertainment_response flaky_env [] None 3 world0) = Inr (Some [111, 107])"
proof -
  have "\<forall>k<3. isl (answer failing_env [] None world0 k)"
    by (simp add: answer_failing)
  with generate_entertainment_response_returns [of failing_env "[]" None world0]
  have 1: "fst (generate_entertainment_response failing_env [] None 3 world0) = Inr (Some fallback_text)"
    by auto
  have "(\<forall>k<1. isl (answer flaky_env [] None world0 k)) \<and>
        answer flaky_env [] None world0 1 = Inr (ascii ''  ok '')"
    by (simp add: answer_flaky)
  with generate_entertainment_response_returns [of flaky_env "[]" None world0]
  have "fst (generate_entertainment_response flaky_env [] None 3 world0) =
        Inr (Some (strip (take 240 (ascii ''  ok ''))))"
    by (metis (no_types, lifting) one_less_numeral_iff semiring_norm(77))
  with 1 show ?thesis by (simp add: strip_ok)
qed

text \<open>
  C9: when \<open>max_retries\<close> is zero or negative the attempt loop does not run: no
  generation call is made and the function returns \<open>None\<close>. When \<open>max_retries\<close> is at
  least one it returns a string. So a string is returned exactly under the precondition
  \<open>max_retries \<ge> 1\<close>.
\<close>

theorem generate_entertainment_response_max_retries:
  "(max_retries \<le> 0 \<longrightarrow>
      generate_entertainment_response env post_text status max_retries w =
        (Inr None, snd (prepare env post_text status w))) \<and>
   (1 \<le> max_retries \<longrightarrow>
      (\<exists>s. fst (generate_entertainment_response env post_text status max_retries w) = Inr (Some s)))"
proof -
  obtain i p w1 where pr: "prepare env post_text status w = ((i, p), w1)"
    by (metis surj_pair)
  show ?thesis
    using attempt_loop_some [of 0 max_retries env i p w1]
          attempt_loop_done [of 0 max_retries env i p w1]
    by (auto simp: generate_entertainment_response_def pr)
qed

theorem generate_entertainment_response_max_retries_witness:
  "generate_entertainment_response calm_env [] None 0 world0 = (Inr None, world0) \<and>
   (\<exists>s. fst (generate_entertainment_response calm_env [] None 1 world0) = Inr (Some s))"
  using generate_entertainment_response_max_retries [of 0 calm_env "[]" None world0]
        generate_entertainment_response_max_retries [of 1 calm_env "[]" None world0]
  by (simp add: prepare_def truthy_dict_def)

text \<open>
  C6, as amended: the 5 second sleep opens every attempt, not the first only: each
  generation call comes right after a sleep of 5 seconds. After failed attempt \<open>k\<close>
  (counted from 1) that is not the last, the handler sleeps \<open>10 * k\<close> seconds, so the
  sleeps between the generation calls of attempts \<open>k\<close> and \<open>k + 1\<close> are \<open>10 * k\<close> and
  then 5 seconds, \<open>10 * k + 5\<close> in all. With \<open>m\<close> failed attempts followed by a
  success, or by the exhaustion of the attempts, the sleeps and calls of the function
  are: sleep 5, call, sleep 10, sleep 5, call, sleep 20, \<open>\<dots>\<close>, sleep \<open>10 * m\<close>,
  sleep 5, call.
\<close>

theorem generate_entertainment_response_timeline:
  "int m < max_retries \<Longrightarrow> \<forall>k<m. isl (answer env post_text status w k) \<Longrightarrow>
   \<not> isl (answer env post_text status w m) \<or> int m = max_retries - 1 \<Longrightarrow>
   timeline (trace (snd (generate_entertainment_response env post_text status max_retries w))) =
   timeline (trace w) @
   concat (map (\<lambda>k. [Wait 5,
                      Attempt (make_request (fst (fst (prepare env post_text status w)))
                                            (snd (fst (prepare env post_text status w)))),
                      Wait (10 * (real k + 1))]) [0..<m]) @
   [Wait 5, Attempt (make_request (fst (fst (prepare env post_text status w)))
                                  (snd (fst (prepare env post_text status w))))]"
proof -
  assume a: "int m < max_retries" and b: "\<forall>k<m. isl (answer env post_text status w k)"
    and c: "\<not> isl (answer env post_text status w m) \<or> int m = max_retries - 1"
  obtain i p w1 where pr: "prepare env post_text status w = ((i, p), w1)"
    by (metis surj_pair)
  have w1: "timeline (trace w1) = timeline (trace w)"
    using timeline_prepare [of env post_text status w] by (simp add: pr)
  show ?thesis
    using attempt_loop_timeline [of 0 m max_retries env w1 i p] a b c
    by (simp add: generate_entertainment_response_def answer_def pr w1)
qed

lemma prepare_plain:
  "fst (prepare calm_env [] None world0) = ([], build_prompt [] False)"
  "fst (prepare flaky_env [] None world0) = ([], build_prompt [] False)"
  by (simp_all add: prepare_def truthy_dict_def calm_env_def flaky_env_def Let_def)

theorem generate_entertainment_response_timeline_witness:
  "timeline (trace (snd (generate_entertainment_response flaky_env [] None 3 world0))) =
     [Wait 5, Attempt (Text_only (build_prompt [] False)), Wait 10,
      Wait 5, Attempt (Text_only (build_prompt [] False))]"
proof -
  have "trace world0 = []" by (simp add: world0_def)
  with generate_entertainment_response_timeline [of 1 3 flaky_env "[]" None world0]
  show ?thesis by (simp add: answer_flaky prepare_plain make_request_def)
qed

text \<open>
  C6, as stated, asks for the sleeps \<open>5, 10, 20\<close> when all three attempts fail. The
  code sleeps \<open>5, 10, 5, 20, 5\<close>.
\<close>

theorem wait_schedule_counterexample:
  "sleeps (trace (snd (generate_entertainment_response failing_env [] None 3 world0))) = [5, 10, 5, 20, 5] \<and>
   sleeps (trace (snd (generate_entertainment_response failing_env [] None 3 world0))) \<noteq> [5, 10, 20]"
  by (simp add: generate_entertainment_response_def prepare_def truthy_dict_def attempt_loop.simps
      try_attempt_def failing_env_def calm_env_def world0_def Let_def)

section \<open>Properties of the rate limiter\<close>

lemma clock_emit [simp]: "clock (emit e w) = clock w"
  by (simp add: emit_def)
lemma clock_tick [simp]: "clock (tick w) = clock w"
  by (simp add: tick_def)
lemma clock_sleep [simp]: "clock (sleep d w) = clock w + max d 0"
  by (simp add: sleep_def)
lemma clock_time_time [simp]: "clock (snd (time_time env w)) = clock w + elapse env (ticks w)"
  by (simp add: time_time_def Let_def)
lemma fst_time_time [simp]: "fst (time_time env w) = clock w + elapse env (ticks w)"
  by (simp add: time_time_def Let_def)
lemma ticks_time_time [simp]: "ticks (snd (time_time env w)) = Suc (ticks w)"
  by (simp add: time_time_def Let_def)
lemma trace_time_time [simp]: "trace (snd (time_time env w)) = trace w"
  by (simp add: time_time_def Let_def)

lemma actions_append [simp]: "actions (xs @ ys) = actions xs @ actions ys"
  by (simp add: actions_def)
lemma actions_Nil [simp]: "actions [] = []"
  by (simp add: actions_def)
lemma actions_Cons [simp]: "actions (e # es) = action_of e @ actions es"
  by (simp add: actions_def)

lemma quiet_refl [simp]: "quiet w w"
  by (simp add: quiet_def)
lemma quiet_trans: "quiet w w1 \<Longrightarrow> quiet w1 w2 \<Longrightarrow> quiet w w2"
  by (auto simp: quiet_def)
lemma quiet_tick: "quiet w w1 \<Longrightarrow> quiet w (tick w1)"
  by (simp add: quiet_def)
lemma quiet_sleep: "quiet w w1 \<Longrightarrow> quiet w (sleep d w1)"
  by (auto simp: quiet_def action_of_def)
lemma quiet_emit: "action_of e = [] \<Longrightarrow> quiet w w1 \<Longrightarrow> quiet w (emit e w1)"
  by (simp add: quiet_def)

lemma steady_calm: "steady calm_env"
  by (simp add: steady_def calm_env_def)


lemmas run_defs =
  iteration_def iteration_body_def post_step_def monitor_hashtag_def monitor_hashtag_body_def
  direct_messages_step_def midnight_step_def handle_rate_limit_def time_time_def
  try_except_def bind_def init_def fresh_def started_def world0_def calm_env_def
  emit_def tick_def sleep_def Let_def load_dm_context_def action_of_def

lemma handle_rate_limit_effect:
  "\<exists>s' w'. handle_rate_limit env (s, w) = (s', w') \<and>
     settings s' = settings s \<and> last_post_time s' = last_post_time s \<and>
     post_count s' = post_count s \<and> actions (trace w') = actions (trace w) \<and>
     (steady env \<longrightarrow> clock w + 2 \<le> clock w')"
proof -
  have e: "steady env \<Longrightarrow> 0 \<le> elapse env k" for k by (simp add: steady_def)
  show ?thesis
    unfolding handle_rate_limit_def
    using e [of "ticks w"] e [of "Suc (ticks w)"]
    by (auto simp: Let_def split_beta max_def settings_def action_of_def)
qed

lemma proceed_times_spaced:
  assumes "steady env"
  shows "sorted_wrt (\<lambda>a b. a + 2 \<le> b) (proceed_times env n sw) \<and>
         (\<forall>r \<in> set (proceed_times env n sw). clock (snd sw) + 2 \<le> r)"
proof (induction n arbitrary: sw)
  case 0
  show ?case by simp
next
  case (Suc n)
  let ?sw = "handle_rate_limit env sw"
  from handle_rate_limit_effect [of env "fst sw" "snd sw"] assms
  have c: "clock (snd sw) + 2 \<le> clock (snd ?sw)" by auto
  from Suc [of ?sw] c show ?case
    by (auto simp: Let_def)
qed

lemma spaced_last:
  "sorted_wrt (\<lambda>a b. a + 2 \<le> b) xs \<Longrightarrow> xs \<noteq> [] \<Longrightarrow> \<forall>x \<in> set xs. (t::real) \<le> x \<Longrightarrow>
   t + 2 * real (length xs - 1) \<le> last xs"
proof (induction xs arbitrary: t)
  case Nil
  then show ?case by simp
next
  case (Cons x xs)
  show ?case
  proof (cases "xs = []")
    case True
    with Cons.prems show ?thesis by simp
  next
    case False
    from Cons.prems have "sorted_wrt (\<lambda>a b. a + 2 \<le> b) xs" and "\<forall>y \<in> set xs. t + 2 \<le> y"
      by auto
    from Cons.IH [OF this(1) False this(2)] False show ?thesis
      by (cases xs) (auto simp: algebra_simps)
  qed
qed

lemma spaced_window:
  assumes "sorted_wrt (\<lambda>a b. a + 2 \<le> b) xs" and "\<forall>x \<in> set xs. (t::real) \<le> x \<and> x < t + 60"
  shows "length xs \<le> 30"
proof (cases "xs = []")
  case True
  then show ?thesis by simp
next
  case False
  from spaced_last [OF assms(1) False, of t] assms(2)
  have "t + 2 * real (length xs - 1) \<le> last xs" by simp
  moreover from False assms(2) have "last xs < t + 60" by simp
  ultimately have "real (length xs - 1) < 30" by simp
  then show ?thesis by linarith
qed

text \<open>
  C2: for every sequence of calls of \<open>_handle_rate_limit\<close>, whatever the state of the
  bot and whatever time passes before and between the calls, at most 30 of the calls
  return, so that their requests proceed, within any window of 60 seconds \<open>[t, t + 60)\<close>
  of the wall clock. The clock is one that does not run backwards.
\<close>

theorem rate_limit_window:
  assumes "steady env"
  shows "length (filter (\<lambda>r. t \<le> r \<and> r < t + 60) (proceed_times env n sw)) \<le> 30"
proof (rule spaced_window [where t = t])
  show "sorted_wrt (\<lambda>a b. a + 2 \<le> b) (filter (\<lambda>r. t \<le> r \<and> r < t + 60) (proceed_times env n sw))"
    using proceed_times_spaced [OF assms, of n sw] by (simp add: sorted_wrt_filter)
  show "\<forall>x\<in>set (filter (\<lambda>r. t \<le> r \<and> r < t + 60) (proceed_times env n sw)). t \<le> x \<and> x < t + 60"
    by simp
qed

text \<open>Three calls in a row on the fresh bot return at 2, 4 and 6 seconds.\<close>

theorem rate_limit_window_witness:
  "steady calm_env \<and> proceed_times calm_env 3 (fresh calm_env) = [2, 4, 6] \<and>
   length (filter (\<lambda>r. 0 \<le> r \<and> r < 0 + 60) (proceed_times calm_env 3 (fresh calm_env))) \<le> 30"
proof -
  have "proceed_times calm_env 3 (fresh calm_env) = [2, 4, 6]"
    by (simp add: numeral_3_eq_3 run_defs)
  with rate_limit_window [OF steady_calm, of 0 3 "fresh calm_env"] steady_calm
  show ?thesis by simp
qed

section \<open>Properties of the scheduler loop\<close>

lemma quiet_after_call: "quiet w w1 \<Longrightarrow> quiet w (after_call i p w1)"
  by (simp add: after_call_def quiet_tick quiet_emit quiet_sleep action_of_def)

lemma quiet_attempt_loop:
  "quiet w0 w \<Longrightarrow> quiet w0 (snd (attempt_loop env i p max_retries attempt w))"
proof (induction env i p max_retries attempt w rule: attempt_loop.induct)
  case (1 env i p max_retries attempt w)
  show ?case
  proof (cases "attempt < max_retries")
    case False
    with "1.prems" show ?thesis by (simp add: attempt_loop_done)
  next
    case lt: True
    show ?thesis
    proof (cases "generate_content env (ticks w) (make_request i p)")
      case (Inr tx)
      with "1.prems" lt show ?thesis
        by (simp add: attempt_loop_success quiet_after_call)
    next
      case (Inl e)
      show ?thesis
      proof (cases "attempt < max_retries - 1")
        case True
        have ta: "(Inl e, after_call i p w) = try_attempt env i p w"
          by (simp add: try_attempt_eq Inl)
        have "quiet w0 (sleep (of_int (10 * (attempt + 1)))
           (emit (Print_retry (attempt + 1) max_retries (10 * (attempt + 1))) (after_call i p w)))"
          using "1.prems" by (simp add: quiet_sleep quiet_emit quiet_after_call action_of_def)
        from "1.IH" [OF lt ta refl True refl refl refl this]
        show ?thesis
          using attempt_loop_retry [OF True Inl] by simp
      next
        case False
        with lt have "attempt = max_retries - 1" by simp
        from attempt_loop_exhausted [OF this Inl] "1.prems" show ?thesis
          by (simp add: quiet_emit quiet_after_call action_of_def)
      qed
    qed
  qed
qed

lemma quiet_download_images:
  "quiet w0 w \<Longrightarrow> quiet w0 (snd (download_images env ms w))"
proof (induction ms arbitrary: w)
  case Nil
  then show ?case by simp
next
  case (Cons m ms)
  have "quiet w0 (tick (emit (Call_download_image (url m)) w))"
    using Cons.prems by (simp add: quiet_tick quiet_emit action_of_def)
  from Cons.IH [OF this] show ?case
    by (simp add: Let_def split_beta split: option.splits)
qed

lemma quiet_prepare: "quiet w0 w \<Longrightarrow> quiet w0 (snd (prepare env post_text status w))"
  by (simp add: prepare_def Let_def split_beta quiet_download_images)

lemma quiet_generate:
  "quiet w0 w \<Longrightarrow> quiet w0 (snd (generate_entertainment_response env post_text status n w))"
  by (simp add: generate_entertainment_response_def split_beta quiet_attempt_loop quiet_prepare)

lemma quiet_reply_loop:
  "quiet w0 w \<Longrightarrow> quiet w0 (snd (reply_loop env hashtag ps w))"
proof (induction ps arbitrary: w)
  case Nil
  then show ?case by simp
next
  case (Cons p ps)
  let ?w1 = "tick w"
  have q1: "quiet w0 ?w1" using Cons.prems by (simp add: quiet_tick)
  show ?case
  proof (cases "rand env (ticks w) < 3 / 10")
    case False
    with Cons.IH [OF q1] show ?thesis by (simp add: Let_def)
  next
    case True
    obtain r w2 where g: "generate_entertainment_response env (content p) None 3 ?w1 = (r, w2)"
      by (metis surj_pair)
    have q2: "quiet w0 w2" using quiet_generate [OF q1, of env "content p" None 3] g by simp
    show ?thesis
    proof (cases r)
      case (Inl e)
      with True g q2 show ?thesis by (simp add: Let_def bind_def)
    next
      case (Inr response)
      let ?w3 = "emit (Call_reply_to_post (post_id p) response) w2"
      have q4: "quiet w0 (tick ?w3)" using q2 by (simp add: quiet_tick quiet_emit action_of_def)
      show ?thesis
      proof (cases "reply_to_post env (ticks w2) (post_id p) response")
        case (Inl e)
        with True g Inr q4 show ?thesis by (simp add: Let_def bind_def)
      next
        case re: (Inr u)
        have "quiet w0 (sleep 30 (emit (Print_replied hashtag) (tick ?w3)))"
          using q4 by (simp add: quiet_sleep quiet_emit action_of_def)
        from Cons.IH [OF this] True g Inr re show ?thesis by (simp add: Let_def bind_def)
      qed
    qed
  qed
qed

lemma monitor_hashtag_effect:
  "\<exists>s' w'. monitor_hashtag env h (s, w) = (Inr (), s', w') \<and>
     settings s' = settings s \<and> last_post_time s' = last_post_time s \<and>
     post_count s' = post_count s \<and>
     actions (trace w') = actions (trace w) @ [Hashtag_monitor h] \<and>
     (steady env \<longrightarrow> clock w \<le> clock w')"
proof -
  obtain s1 w1 where rl: "handle_rate_limit env (s, w) = (s1, w1)"
    and s1: "settings s1 = settings s" "last_post_time s1 = last_post_time s"
            "post_count s1 = post_count s"
    and a1: "actions (trace w1) = actions (trace w)"
    and c1: "steady env \<longrightarrow> clock w + 2 \<le> clock w1"
    using handle_rate_limit_effect [of env s w] by blast
  let ?w2 = "tick (emit (Call_search_hashtag h 5) w1)"
  have a2: "actions (trace ?w2) = actions (trace w) @ [Hashtag_monitor h]"
    by (simp add: a1 action_of_def)
  have c2: "clock ?w2 = clock w1" by simp
  show ?thesis
  proof (cases "search_hashtag env (ticks w1) h 5")
    case (Inl e)
    then show ?thesis
      using rl s1 a2 c1 c2
      by (auto simp: monitor_hashtag_def monitor_hashtag_body_def try_except_def Let_def action_of_def)
  next
    case (Inr posts)
    obtain r w3 where lp: "reply_loop env h posts ?w2 = (r, w3)" by (metis surj_pair)
    have "quiet ?w2 w3" using quiet_reply_loop [of ?w2 ?w2 env h posts] lp by simp
    then have a3: "actions (trace w3) = actions (trace w) @ [Hashtag_monitor h]"
      and c3: "clock w1 \<le> clock w3"
      using a2 c2 by (auto simp: quiet_def)
    show ?thesis
      using rl s1 a3 c1 c3 Inr lp
      by (cases r) (auto simp: monitor_hashtag_def monitor_hashtag_body_def try_except_def Let_def action_of_def)
  qed
qed

lemma monitor_all_effect:
  "\<exists>s' w'. monitor_all env hs (s, w) = (Inr (), s', w') \<and>
     settings s' = settings s \<and> last_post_time s' = last_post_time s \<and>
     post_count s' = post_count s \<and>
     actions (trace w') = actions (trace w) @ map Hashtag_monitor hs \<and>
     (steady env \<longrightarrow> clock w \<le> clock w')"
proof (induction hs arbitrary: s w)
  case Nil
  show ?case by simp
next
  case (Cons h hs)
  obtain s1 w1 where m: "monitor_hashtag env h (s, w) = (Inr (), s1, w1)"
    and s1: "settings s1 = settings s" "last_post_time s1 = last_post_time s"
            "post_count s1 = post_count s"
    and a1: "actions (trace w1) = actions (trace w) @ [Hashtag_monitor h]"
    and c1: "steady env \<longrightarrow> clock w \<le> clock w1"
    using monitor_hashtag_effect [of env h s w] by blast
  from Cons [of s1 w1] obtain s2 w2 where "monitor_all env hs (s1, w1) = (Inr (), s2, w2)"
    and "settings s2 = settings s1" "last_post_time s2 = last_post_time s1"
            "post_count s2 = post_count s1"
    and "actions (trace w2) = actions (trace w1) @ map Hashtag_monitor hs"
    and "steady env \<longrightarrow> clock w1 \<le> clock w2"
    by blast
  with m s1 a1 c1 show ?case
    by (auto simp: bind_def)
qed

lemma iteration_body_split:
  "iteration_body env (s, w) =
     bind (post_step env (clock w + elapse env (ticks w)) (s, snd (time_time env w)))
       (\<lambda>_. after_post_step env)"
  by (simp add: iteration_body_def after_post_step_def [abs_def] time_time_def Let_def)

lemma midnight_step_effect:
  "\<exists>s' w'. midnight_step env (s, w) = (s', w') \<and>
     settings s' = settings s \<and> last_post_time s' = last_post_time s \<and>
     (post_count s' = post_count s \<or> post_count s' = 0) \<and>
     (no_midnight env \<longrightarrow> post_count s' = post_count s) \<and>
     trace w' = trace w \<and> clock w' = clock w"
  by (auto simp: midnight_step_def Let_def settings_def no_midnight_def)

lemma after_post_step_effect:
  "\<exists>r s' w'. after_post_step env (s, w) = (r, s', w') \<and>
     settings s' = settings s \<and> last_post_time s' = last_post_time s \<and>
     (post_count s' = post_count s \<or> post_count s' = 0) \<and>
     (no_midnight env \<longrightarrow> post_count s' = post_count s) \<and>
     actions (trace w') = actions (trace w) @ map Hashtag_monitor (hashtags_to_monitor s) @ [Direct_messages] \<and>
     (steady env \<longrightarrow> clock w \<le> clock w')"
proof -
  obtain s1 w1 where m: "monitor_all env (hashtags_to_monitor s) (s, w) = (Inr (), s1, w1)"
    and s1: "settings s1 = settings s" "last_post_time s1 = last_post_time s"
            "post_count s1 = post_count s"
    and a1: "actions (trace w1) = actions (trace w) @ map Hashtag_monitor (hashtags_to_monitor s)"
    and c1: "steady env \<longrightarrow> clock w \<le> clock w1"
    using monitor_all_effect [of env "hashtags_to_monitor s" s w] by blast
  let ?w2 = "tick (emit Call_handle_direct_messages w1)"
  have d: "direct_messages_step env (s1, w1) = (handle_direct_messages env (ticks w1), s1, ?w2)"
    by (simp add: direct_messages_step_def Let_def)
  have a2: "actions (trace ?w2) =
            actions (trace w) @ map Hashtag_monitor (hashtags_to_monitor s) @ [Direct_messages]"
    by (simp add: a1 action_of_def)
  show ?thesis
  proof (cases "handle_direct_messages env (ticks w1)")
    case (Inl e)
    with m d s1 a2 c1 show ?thesis
      by (simp add: after_post_step_def bind_def)
  next
    case (Inr u)
    obtain s3 w3 where ms: "midnight_step env (s1, ?w2) = (s3, w3)"
      and s3: "settings s3 = settings s1" "last_post_time s3 = last_post_time s1"
        "post_count s3 = post_count s1 \<or> post_count s3 = 0"
        "no_midnight env \<longrightarrow> post_count s3 = post_count s1"
        "trace w3 = trace ?w2" "clock w3 = clock ?w2"
      using midnight_step_effect [of env s1 ?w2] by blast
    from m d Inr ms have "after_post_step env (s, w) = (Inr (), s3, sleep 60 w3)"
      by (simp add: after_post_step_def bind_def)
    with s1 s3 a2 c1 show ?thesis
      by (auto simp: action_of_def)
  qed
qed

lemma iteration_body_effect:
  "\<exists>r s' w'. iteration_body env (s, w) = (r, s', w') \<and> settings s' = settings s \<and>
     (if due env (s, w) then
        (case create_scheduled_post env (Suc (ticks w)) of
           Inl e \<Rightarrow> r = Inl e \<and> last_post_time s' = last_post_time s \<and>
                    post_count s' = post_count s \<and>
                    actions (trace w') = actions (trace w) @ [Auto_post]
         | Inr _ \<Rightarrow> last_post_time s' = clock w + elapse env (ticks w) \<and>
                    (post_count s' = post_count s + 1 \<or> post_count s' = 0) \<and>
                    (no_midnight env \<longrightarrow> post_count s' = post_count s + 1) \<and>
                    actions (trace w') =
                      actions (trace w) @ Auto_post #
                        map Hashtag_monitor (hashtags_to_monitor s) @ [Direct_messages])
      else last_post_time s' = last_post_time s \<and>
           (post_count s' = post_count s \<or> post_count s' = 0) \<and>
           (no_midnight env \<longrightarrow> post_count s' = post_count s) \<and>
           actions (trace w') =
             actions (trace w) @ map Hashtag_monitor (hashtags_to_monitor s) @ [Direct_messages]) \<and>
     (steady env \<longrightarrow> clock w + elapse env (ticks w) \<le> clock w')"
proof -
  let ?c = "clock w + elapse env (ticks w)"
  let ?w0 = "snd (time_time env w)"
  have c0: "clock ?w0 = ?c" by simp
  show ?thesis
  proof (cases "due env (s, w)")
    case False
    then have p: "post_step env ?c (s, ?w0) = (Inr (), s, ?w0)"
      by (auto simp: post_step_def due_def)
    from after_post_step_effect [of env s ?w0] c0 False show ?thesis
      unfolding iteration_body_split p
      by (auto simp: bind_def)
  next
    case True
    let ?w2 = "tick (emit Call_create_scheduled_post ?w0)"
    show ?thesis
    proof (cases "create_scheduled_post env (Suc (ticks w))")
      case (Inl e)
      with True have p: "post_step env ?c (s, ?w0) = (Inl e, s, ?w2)"
        by (auto simp: post_step_def due_def Let_def bind_def)
      from c0 True Inl show ?thesis
        unfolding iteration_body_split p
        by (auto simp: bind_def action_of_def)
    next
      case (Inr u)
      let ?s = "s\<lparr>last_post_time := ?c, post_count := post_count s + 1\<rparr>"
      let ?w3 = "emit (Print_auto_post (post_count s + 1) (max_daily_posts s)) ?w2"
      from True Inr have p: "post_step env ?c (s, ?w0) = (Inr (), ?s, ?w3)"
        by (auto simp: post_step_def due_def Let_def bind_def)
      from after_post_step_effect [of env ?s ?w3] c0 True Inr show ?thesis
        unfolding iteration_body_split p
        by (auto simp: bind_def action_of_def settings_def)
    qed
  qed
qed

lemma iteration_effect:
  "\<exists>s' w'. iteration env (s, w) = (Inr (), s', w') \<and> settings s' = settings s \<and>
     (if due env (s, w) then
        (case create_scheduled_post env (Suc (ticks w)) of
           Inl e \<Rightarrow> last_post_time s' = last_post_time s \<and>
                    post_count s' = post_count s \<and>
                    actions (trace w') = actions (trace w) @ [Auto_post]
         | Inr _ \<Rightarrow> last_post_time s' = clock w + elapse env (ticks w) \<and>
                    (post_count s' = post_count s + 1 \<or> post_count s' = 0) \<and>
                    (no_midnight env \<longrightarrow> post_count s' = post_count s + 1) \<and>
                    actions (trace w') =
                      actions (trace w) @ Auto_post #
                        map Hashtag_monitor (hashtags_to_monitor s) @ [Direct_messages])
      else last_post_time s' = last_post_time s \<and>
           (post_count s' = post_count s \<or> post_count s' = 0) \<and>
           (no_midnight env \<longrightarrow> post_count s' = post_count s) \<and>
           actions (trace w') =
             actions (trace w) @ map Hashtag_monitor (hashtags_to_monitor s) @ [Direct_messages]) \<and>
     (steady env \<longrightarrow> clock w + elapse env (ticks w) \<le> clock w')"
proof -
  from iteration_body_effect [of env s w] obtain r s1 w1 where
    b: "iteration_body env (s, w) = (r, s1, w1)" and
    rest: "settings s1 = settings s \<and>
     (if due env (s, w) then
        (case create_scheduled_post env (Suc (ticks w)) of
           Inl e \<Rightarrow> r = Inl e \<and> last_post_time s1 = last_post_time s \<and>
                    post_count s1 = post_count s \<and>
                    actions (trace w1) = actions (trace w) @ [Auto_post]
         | Inr _ \<Rightarrow> last_post_time s1 = clock w + elapse env (ticks w) \<and>
                    (post_count s1 = post_count s + 1 \<or> post_count s1 = 0) \<and>
                    (no_midnight env \<longrightarrow> post_count s1 = post_count s + 1) \<and>
                    actions (trace w1) =
                      actions (trace w) @ Auto_post #
                        map Hashtag_monitor (hashtags_to_monitor s) @ [Direct_messages])
      else last_post_time s1 = last_post_time s \<and>
           (post_count s1 = post_count s \<or> post_count s1 = 0) \<and>
           (no_midnight env \<longrightarrow> post_count s1 = post_count s) \<and>
           actions (trace w1) =
             actions (trace w) @ map Hashtag_monitor (hashtags_to_monitor s) @ [Direct_messages]) \<and>
     (steady env \<longrightarrow> clock w + elapse env (ticks w) \<le> clock w1)"
    by blast
  show ?thesis
  proof (cases r)
    case (Inr u)
    with b have "iteration env (s, w) = (Inr (), s1, w1)"
      by (simp add: iteration_def try_except_def)
    with rest Inr show ?thesis by (auto split: sum.splits if_splits)
  next
    case (Inl e)
    with b have "iteration env (s, w) =
        (Inr (), s1, sleep 300 (emit (Print_main_loop_error e) w1))"
      by (simp add: iteration_def try_except_def)
    with rest show ?thesis
      by (auto simp: action_of_def split: sum.splits if_splits)
  qed
qed

lemma posts_append [simp]: "posts (xs @ ys) = posts xs + posts ys"
  by (induction xs) (simp_all add: posts_def)

lemma count_monitors [simp]: "count_list (map Hashtag_monitor hs) Auto_post = 0"
  by (induction hs) simp_all

lemma count_list_app: "count_list (xs @ ys) a = count_list xs a + count_list ys a"
  by (induction xs) simp_all


lemma run_forever_fresh: "run_forever env n (fresh env) = run_forever_loop env n (started env)"
  by (simp add: run_forever_def started_def split_beta Let_def)









text \<open>
  C4, as amended: an iteration of \<open>run_forever\<close> starts three kinds of action and no
  auto-like. The actions run in the order: the auto-post, when it is due and the daily
  cap is not reached; the monitoring of each hashtag, in the order of the list; the check
  of the direct messages. When the auto-post raises, the other actions of the iteration
  do not run.
\<close>

theorem iteration_action_order:
  "actions (trace (snd (snd (iteration env (s, w))))) =
     actions (trace w) @
     (if due env (s, w) then
        (if isl (create_scheduled_post env (Suc (ticks w))) then [Auto_post]
         else Auto_post # map Hashtag_monitor (hashtags_to_monitor s) @ [Direct_messages])
      else map Hashtag_monitor (hashtags_to_monitor s) @ [Direct_messages]) \<and>
   (Auto_like \<notin> set (actions (trace w)) \<longrightarrow>
      Auto_like \<notin> set (actions (trace (snd (snd (iteration env (s, w)))))))"
proof -
  from iteration_effect [of env s w] obtain s' w' where
    it: "iteration env (s, w) = (Inr (), s', w')" and
    a: "if due env (s, w) then
        (case create_scheduled_post env (Suc (ticks w)) of
           Inl e \<Rightarrow> actions (trace w') = actions (trace w) @ [Auto_post]
         | Inr _ \<Rightarrow> actions (trace w') =
                      actions (trace w) @ Auto_post #
                        map Hashtag_monitor (hashtags_to_monitor s) @ [Direct_messages])
      else actions (trace w') =
             actions (trace w) @ map Hashtag_monitor (hashtags_to_monitor s) @ [Direct_messages]"
    by (auto split: if_splits sum.splits)
  from it a show ?thesis
    by (auto split: if_splits sum.splits)
qed

text \<open>An iteration in which no post is due: three hashtags, then the direct messages.\<close>

theorem iteration_action_order_witness:
  "actions (trace (snd (snd (iteration calm_env (fresh calm_env))))) =
     [Hashtag_monitor (ascii ''tech''), Hashtag_monitor (ascii ''AI''),
      Hashtag_monitor (ascii ''programming''), Direct_messages] \<and>
   Auto_like \<notin> set (actions (trace (snd (snd (iteration calm_env (fresh calm_env))))))"
proof -
  have e: "\<not> due calm_env (fresh calm_env)" "actions (trace (snd (fresh calm_env))) = []"
    "hashtags_to_monitor (fst (fresh calm_env)) = [ascii ''tech'', ascii ''AI'', ascii ''programming'']"
    by (simp_all add: due_def run_defs)
  from iteration_action_order [of calm_env "fst (fresh calm_env)" "snd (fresh calm_env)"] e
  show ?thesis by simp
qed

text \<open>
  C4, as stated, ends every iteration with the auto-like of trending posts. An iteration
  in which everything succeeds and a post is due performs the auto-post, the three
  hashtags and the direct messages, and no auto-like.
\<close>

theorem four_actions_counterexample:
  "actions (trace (snd (snd (iteration due_env (fresh due_env))))) =
     [Auto_post, Hashtag_monitor (ascii ''tech''), Hashtag_monitor (ascii ''AI''),
      Hashtag_monitor (ascii ''programming''), Direct_messages] \<and>
   Auto_like \<notin> set (actions (trace (snd (snd (iteration due_env (fresh due_env))))))"
  by (simp add: run_defs due_env_def)




lemma iterations_last_post_time:
  "t0 \<le> last_post_time s \<Longrightarrow> 0 \<le> auto_post_interval s \<Longrightarrow>
   t0 \<le> last_post_time (fst (iterations env n (s, w))) \<and>
   settings (fst (iterations env n (s, w))) = settings s"
proof (induction n arbitrary: s w)
  case 0
  show ?case using 0 by simp
next
  case (Suc n)
  from iteration_effect [of env s w] obtain s1 w1 where
    i1: "iteration env (s, w) = (Inr (), s1, w1)" and st1: "settings s1 = settings s"
    and l1: "last_post_time s1 = last_post_time s \<or>
             (due env (s, w) \<and> last_post_time s1 = clock w + elapse env (ticks w))"
    by (auto split: if_splits sum.splits)
  from l1 Suc.prems have "t0 \<le> last_post_time s1"
    by (auto simp: due_def)
  moreover from st1 Suc.prems have "0 \<le> auto_post_interval s1" by (simp add: settings_def)
  ultimately show ?case
    using Suc.IH [of s1 w1] i1 st1 by simp
qed

text \<open>
  C10: the constructor sets \<open>last_post_time\<close> to its reading of the wall clock and the
  interval to 1800 seconds. After any number of iterations, in any environment, an
  iteration that reads the clock less than 1800 seconds after that first reading finds
  the posting condition false and makes no post.
\<close>

theorem no_post_before_first_interval:
  "last_post_time (fst (init env file w)) = clock w + elapse env (ticks w) \<and>
   auto_post_interval (fst (init env file w)) = 1800 \<and>
   (clock (snd (iterations env n (init env file w))) +
      elapse env (ticks (snd (iterations env n (init env file w)))) <
      last_post_time (fst (init env file w)) + 1800 \<longrightarrow>
    \<not> due env (iterations env n (init env file w)) \<and>
    posts (trace (snd (snd (iteration env (iterations env n (init env file w)))))) =
      posts (trace (snd (iterations env n (init env file w)))))"
proof -
  obtain s0 w0 where i0: "init env file w = (s0, w0)" by (metis surj_pair)
  have l0: "last_post_time s0 = clock w + elapse env (ticks w)" and a0: "auto_post_interval s0 = 1800"
    using i0 by (auto simp: init_def time_time_def Let_def)
  obtain s1 w1 where it: "iterations env n (s0, w0) = (s1, w1)" by (metis surj_pair)
  from iterations_last_post_time [of "last_post_time s0" s0 env n w0] a0 it
  have inv: "last_post_time s0 \<le> last_post_time s1" and st: "auto_post_interval s1 = 1800"
    by (auto simp: settings_def)
  have nd: "clock w1 + elapse env (ticks w1) < last_post_time s0 + 1800 \<Longrightarrow> \<not> due env (s1, w1)"
    using inv st by (simp add: due_def)
  have np: "\<not> due env (s1, w1) \<Longrightarrow>
            posts (trace (snd (snd (iteration env (s1, w1))))) = posts (trace w1)"
    using iteration_effect [of env s1 w1] by (auto simp: posts_def count_list_app)
  show ?thesis
    unfolding i0 it using l0 a0 nd np by auto
qed

theorem no_post_before_first_interval_witness:
  "clock (snd (iterations calm_env 2 (init calm_env None world0))) = 132 \<and>
   posts (trace (snd (snd (iteration calm_env (iterations calm_env 2 (init calm_env None world0)))))) = 0"
proof -
  have e: "clock (snd (iterations calm_env 2 (init calm_env None world0))) = 132"
    "elapse calm_env (ticks (snd (iterations calm_env 2 (init calm_env None world0)))) = 0"
    "posts (trace (snd (iterations calm_env 2 (init calm_env None world0)))) = 0"
    "last_post_time (fst (init calm_env None world0)) = 0"
    by (simp_all add: numeral_2_eq_2 run_defs posts_def)
  from no_post_before_first_interval [of calm_env None world0 2] e
  show ?thesis by simp
qed

text \<open>
  The bounds of C3 hold: the iterations keep \<open>post_count\<close> between 0 and
  \<open>max_daily_posts\<close>.
\<close>

lemma post_count_bounded:
  "0 \<le> post_count s \<Longrightarrow> post_count s \<le> max_daily_posts s \<Longrightarrow>
   0 \<le> post_count (fst (iterations env n (s, w))) \<and>
   post_count (fst (iterations env n (s, w))) \<le> max_daily_posts (fst (iterations env n (s, w)))"
proof (induction n arbitrary: s w)
  case 0
  then show ?case by simp
next
  case (Suc n)
  from iteration_effect [of env s w] obtain s1 w1 where
    i1: "iteration env (s, w) = (Inr (), s1, w1)" and st1: "settings s1 = settings s"
    and p1: "post_count s1 = post_count s \<or> post_count s1 = 0 \<or>
             (due env (s, w) \<and> post_count s1 = post_count s + 1)"
    by (auto split: if_splits sum.splits)
  from p1 st1 Suc.prems have "0 \<le> post_count s1 \<and> post_count s1 \<le> max_daily_posts s1"
    by (auto simp: due_def settings_def)
  with Suc.IH [of s1 w1] i1 show ?case by simp
qed

text \<open>
  C3: \<open>post_count\<close> is to be reset once per calendar day. The test for midnight runs
  once per iteration and asks for minute 0 of hour 0, while two tests are more than 60
  seconds apart. Here the first test (reading 10 of the environment) sees 23:59 and the
  second (reading 19), 66 seconds later, sees 00:01: the post made before midnight is
  still counted on the new day.
\<close>

theorem midnight_reset_missed:
  "local_now night_env 10 = (23, 59) \<and> local_now night_env 19 = (0, 1) \<and>
   post_count (fst (iterations night_env 1 (started night_env))) = 1 \<and>
   post_count (fst (iterations night_env 2 (started night_env))) = 1 \<and>
   ticks (snd (iterations night_env 1 (started night_env))) = 11 \<and>
   ticks (snd (iterations night_env 2 (started night_env))) = 21 \<and>
   clock (snd (iterations night_env 2 (started night_env))) -
     clock (snd (iterations night_env 1 (started night_env))) = 66"
  by (simp add: numeral_2_eq_2 run_defs night_env_def due_env_def)

section \<open>Properties of the store of answered direct messages\<close>

lemma insert_twice: "List.insert i (List.insert i xs) = List.insert i xs"
  by (simp add: List.insert_def)

lemma count_distinct: "distinct xs \<Longrightarrow> count_list xs i = (if i \<in> set xs then 1 else 0)"
  by (induction xs) auto

lemma reply_to_new_skips_known:
  "set (fst (reply_to_new ms st)) \<inter> set (fst st) = {}"
proof (induction ms arbitrary: st)
  case Nil
  show ?case by simp
next
  case (Cons m ms)
  show ?case
  proof (cases "has_replied m (fst st)")
    case True
    with Cons [of st] show ?thesis by simp
  next
    case False
    have "set (fst (record_reply m st)) = insert m (set (fst st))"
      by (simp add: record_reply_def Let_def)
    with Cons [of "record_reply m st"] False show ?thesis
      by (auto simp: split_beta Let_def has_replied_def)
  qed
qed

text \<open>
  C8: loading a missing file gives the empty set. Recording an identifier twice is the
  same as recording it once, and leaves the identifier exactly once in the persisted
  list. After a restart on a file that holds the identifiers \<open>ids\<close>, whatever messages
  come in, none of \<open>ids\<close> is replied to.
\<close>

theorem dm_store_contract:
  "load_dm_context None = [] \<and>
   record_reply i (record_reply i st) = record_reply i st \<and>
   (distinct (fst st) \<longrightarrow>
      (\<exists>ids. snd (record_reply i (record_reply i st)) = Some ids \<and> count_list ids i = 1)) \<and>
   (\<forall>j \<in> set ids. j \<notin> set (fst (reply_to_new ms (restart (Some ids)))))"
proof -
  have 1: "load_dm_context None = []" by (simp add: load_dm_context_def)
  have 2: "record_reply i (record_reply i st) = record_reply i st"
    by (simp add: record_reply_def Let_def insert_twice)
  have 3: "distinct (fst st) \<longrightarrow>
      (\<exists>ids. snd (record_reply i (record_reply i st)) = Some ids \<and> count_list ids i = 1)"
    by (simp add: record_reply_def Let_def insert_twice count_distinct)
  have 4: "\<forall>j \<in> set ids. j \<notin> set (fst (reply_to_new ms (restart (Some ids))))"
    using reply_to_new_skips_known [of ms "restart (Some ids)"]
    by (auto simp: restart_def load_dm_context_def)
  from 1 2 3 4 show ?thesis by blast
qed

theorem dm_store_contract_witness:
  "distinct (fst (restart (Some [7, 8]))) \<and>
   snd (record_reply 9 (record_reply 9 (restart (Some [7, 8])))) = Some [9, 7, 8] \<and>
   fst (reply_to_new [8, 9, 7, 9] (restart (Some [7, 8]))) = [9]"
proof -
  have e: "distinct (fst (restart (Some [7, 8])))"
    "fst (reply_to_new [8, 9, 7, 9] (restart (Some [7, 8]))) = [9]"
    "snd (record_reply 9 (record_reply 9 (restart (Some [7, 8])))) = Some [9, 7, 8]"
    by (simp_all add: restart_def load_dm_context_def record_reply_def has_replied_def Let_def)
  from dm_store_contract [of 9 "restart (Some [7, 8])" "[7, 8]" "[8, 9, 7, 9]"] e
  show ?thesis by simp
qed

end
